theory Spec2Isabelle
  imports Main
begin

section \<open>JavaScript values and objects\<close>

text \<open>
  The values a property of the component can hold. A function is known by its identity
  (two function values are the same exactly when they are the same function object), a
  React element by its content. An object is a finite table from property names to values;
  on this representation two values are deeply equal exactly when they are equal.
\<close>

datatype jsval =
    JUndefined
  | JNull
  | JBool bool
  | JNum int
  | JStr string
  | JFunc nat
  | JElement string
  | JArray "jsval list"
  | JObject "string \<Rightarrow> jsval option"

text \<open>An object under construction (\<open>config\<close>, \<open>passProps\<close>): a map from keys to values.\<close>

type_synonym obj = "string \<Rightarrow> jsval option"

text \<open>
  The props of the component, as \<open>for (const _key in props)\<close> and
  \<open>Object.keys(props)\<close> walk them: the keys in their order, each with its value.
\<close>

type_synonym props = "(string \<times> jsval) list"

fun typeof :: "jsval \<Rightarrow> string" where
  "typeof JUndefined = ''undefined''"
| "typeof JNull = ''object''"
| "typeof (JBool b) = ''boolean''"
| "typeof (JNum n) = ''number''"
| "typeof (JStr s) = ''string''"
| "typeof (JFunc f) = ''function''"
| "typeof (JElement e) = ''object''"
| "typeof (JArray xs) = ''object''"
| "typeof (JObject m) = ''object''"

text \<open>\<open>React.isValidElement\<close>, \<open>value instanceof Array\<close> and \<open>Array.prototype.every\<close>.\<close>

fun isValidElement :: "jsval \<Rightarrow> bool" where
  "isValidElement (JElement e) = True"
| "isValidElement v = False"

fun instanceofArray :: "jsval \<Rightarrow> bool" where
  "instanceofArray (JArray xs) = True"
| "instanceofArray v = False"

fun every :: "(jsval \<Rightarrow> bool) \<Rightarrow> jsval \<Rightarrow> bool" where
  "every f (JArray xs) = list_all f xs"
| "every f v = False"

text \<open>\<open>Array.prototype.indexOf\<close>: the first position of the element, or \<open>-1\<close>.\<close>

fun indexOf :: "'a list \<Rightarrow> 'a \<Rightarrow> int" where
  "indexOf [] x = - 1"
| "indexOf (y # ys) x =
     (if y = x then 0
      else (let i = indexOf ys x in if i = - 1 then - 1 else i + 1))"

text \<open>\<open>props[key]\<close>: the value of the property, \<open>undefined\<close> when there is none.\<close>

definition getProp :: "props \<Rightarrow> string \<Rightarrow> jsval" where
  "getProp ps key = (case map_of ps key of Some v \<Rightarrow> v | None \<Rightarrow> JUndefined)"

section \<open>The tables of utils.tsx\<close>

definition OPTIONS :: "string list" where
  "OPTIONS =
    [''createHTML'',
     ''customVirtualKeyboardLayers'',
     ''customVirtualKeyboards'',
     ''defaultMode'',
     ''fontsDirectory'',
     ''horizontalSpacingScale'',
     ''ignoreSpacebarInMathMode'',
     ''inlineShortcutTimeout'',
     ''inlineShortcuts'',
     ''keybindings'',
     ''keypressSound'',
     ''keypressVibration'',
     ''letterShapeStyle'',
     ''locale'',
     ''macros'',
     ''namespace'',
     ''onBlur'',
     ''onCommit'',
     ''onContentDidChange'',
     ''onContentWillChange'',
     ''onError'',
     ''onFocus'',
     ''onKeystroke'',
     ''onModeChange'',
     ''onMoveOutOf'',
     ''onReadAloudStatus'',
     ''onSelectionDidChange'',
     ''onSelectionWillChange'',
     ''onTabOutOf'',
     ''onUndoStateDidChange'',
     ''onUndoStateWillChange'',
     ''onVirtualKeyboardToggle'',
     ''overrideDefaultInlineShortcuts'',
     ''plonkSound'',
     ''readAloudHook'',
     ''readOnly'',
     ''removeExtraneousParentheses'',
     ''scriptDepth'',
     ''smartFence'',
     ''smartMode'',
     ''smartSuperscript'',
     ''speakHook'',
     ''speechEngine'',
     ''speechEngineRate'',
     ''speechEngineVoice'',
     ''strings'',
     ''substituteTextArea'',
     ''textToSpeechMarkup'',
     ''textToSpeechRules'',
     ''textToSpeechRulesOptions'',
     ''virtualKeyboardLayout'',
     ''virtualKeyboardMode'',
     ''virtualKeyboardTheme'',
     ''virtualKeyboardToggleGlyph'',
     ''virtualKeyboards'']"

definition FUNCTION_MAPPING :: "(string \<times> string) list" where
  "FUNCTION_MAPPING =
    [(''onChange'', ''input''),
     (''onInput'', ''input''),
     (''onMathFieldFocus'', ''focus''),
     (''onMathFieldBlur'', ''blur''),
     (''onCommit'', ''change''),
     (''onError'', ''math-error''),
     (''onKeystroke'', ''keystroke''),
     (''onModeChange'', ''mode-change''),
     (''onMoveOutOf'', ''focus-out''),
     (''onReadAloudStatus'', ''read-aloud-status''),
     (''onSelectionWillChange'', ''selection-will-change''),
     (''onUndoStateDidChange'', ''undo-state-did-change''),
     (''onUndoStateWillChange'', ''undo-state-will-change''),
     (''onVirtualKeyboardToggle'', ''virtual-keyboard-toggle'')]"

text \<open>\<open>Object.keys(FUNCTION_MAPPING)\<close>.\<close>

definition FUNCTION_PROPS :: "string list" where
  "FUNCTION_PROPS = map fst FUNCTION_MAPPING"

definition MAPPING :: "(string \<times> string) list" where
  "MAPPING = [(''className'', ''class''), (''htmlFor'', ''for'')]"

text \<open>
  \<open>MAPPING\<close> is an object literal, so \<open>MAPPING[_key]\<close> also finds what every object
  inherits from \<open>Object.prototype\<close>. The members of \<open>Object.prototype\<close>, by name, each
  with the string it gives when it is used as a property name (the text of a built-in
  function as V8 prints it; \<open>__proto__\<close> reads as the prototype object itself).
\<close>

definition Object_prototype :: "(string \<times> string) list" where
  "Object_prototype =
    [(''constructor'', ''function Object() { [native code] }''),
     (''__defineGetter__'', ''function __defineGetter__() { [native code] }''),
     (''__defineSetter__'', ''function __defineSetter__() { [native code] }''),
     (''hasOwnProperty'', ''function hasOwnProperty() { [native code] }''),
     (''__lookupGetter__'', ''function __lookupGetter__() { [native code] }''),
     (''__lookupSetter__'', ''function __lookupSetter__() { [native code] }''),
     (''isPrototypeOf'', ''function isPrototypeOf() { [native code] }''),
     (''propertyIsEnumerable'', ''function propertyIsEnumerable() { [native code] }''),
     (''toString'', ''function toString() { [native code] }''),
     (''valueOf'', ''function valueOf() { [native code] }''),
     (''__proto__'', ''[object Object]''),
     (''toLocaleString'', ''function toLocaleString() { [native code] }'')]"

text \<open>
  The value of \<open>key\<close> in \<open>filterConfig\<close>: a string, or a member of \<open>Object.prototype\<close>
  (a function or an object, kept here with the string it gives as a property name).
\<close>

datatype propkey = Name string | Member string

text \<open>
  \<open>MAPPING[_key] || _key\<close>: the entry of the table when there is one and it is truthy
  (a string is falsy only when it is empty), else the inherited member of that name when
  there is one (every member is truthy), else the key itself.
\<close>

definition renamed :: "string \<Rightarrow> propkey" where
  "renamed rawKey =
     (case map_of MAPPING rawKey of
        Some k \<Rightarrow> if k \<noteq> [] then Name k else Name rawKey
      | None \<Rightarrow>
          (case map_of Object_prototype rawKey of
             Some form \<Rightarrow> Member form
           | None \<Rightarrow> Name rawKey))"

text \<open>The property name \<open>key\<close> stands for in \<open>config[key]\<close> and \<open>passProps[key]\<close>.\<close>

fun propertyKey :: "propkey \<Rightarrow> string" where
  "propertyKey (Name s) = s"
| "propertyKey (Member form) = form"

section \<open>filterConfig\<close>

text \<open>
  The loop of \<open>filterConfig\<close> over the properties, with the two objects it fills.
  \<open>renderToString\<close> is the server renderer of react-dom, taken as a parameter.
  \<open>indexOf\<close> compares with \<open>===\<close>: in a table of strings it finds a string only.
\<close>

fun filterConfig_loop ::
  "(jsval \<Rightarrow> string) \<Rightarrow> props \<Rightarrow> obj \<Rightarrow> obj \<Rightarrow> obj \<times> obj" where
  "filterConfig_loop renderToString [] config passProps = (config, passProps)"
| "filterConfig_loop renderToString ((rawKey, v) # rest) config passProps =
     (let key = renamed rawKey in
      if indexOf (map Name FUNCTION_PROPS) key > - 1 then
        filterConfig_loop renderToString rest config passProps
      else if indexOf (map Name OPTIONS) key > - 1 then
        (let val =
           (if isValidElement v \<or> (instanceofArray v \<and> every isValidElement v)
            then JStr (renderToString v) else v)
         in filterConfig_loop renderToString rest (config(propertyKey key \<mapsto> val)) passProps)
      else
        filterConfig_loop renderToString rest config (passProps(propertyKey key \<mapsto> v)))"

definition filterConfig :: "(jsval \<Rightarrow> string) \<Rightarrow> props \<Rightarrow> obj \<times> obj" where
  "filterConfig renderToString ps = filterConfig_loop renderToString ps Map.empty Map.empty"

text \<open>The property name a key of the props is written under, when it is written.\<close>

abbreviation storedKey :: "string \<Rightarrow> string" where
  "storedKey rawKey \<equiv> propertyKey (renamed rawKey)"

text \<open>A renderer for the examples: it renders everything as the empty string.\<close>

definition renderNothing :: "jsval \<Rightarrow> string" where
  "renderNothing v = []"

section \<open>useUpdateOptions\<close>

text \<open>
  The math field, as far as the hook touches it: the arguments of the calls of
  \<open>setOptions\<close>, in the order they were made.
\<close>

record mathfield =
  options_calls :: "obj list"

definition setOptions :: "mathfield \<Rightarrow> obj \<Rightarrow> mathfield" where
  "setOptions w config = w\<lparr>options_calls := options_calls w @ [config]\<rparr>"

text \<open>
  \<open>isEqual\<close> of lodash compares two objects by their keys and, deeply, by their values,
  whatever the order of the keys: on maps that is equality.
\<close>

definition isEqual :: "obj \<Rightarrow> obj \<Rightarrow> bool" where
  "isEqual a b = (a = b)"

text \<open>
  The body of the layout effect. \<open>ref\<close> is \<open>ref.current\<close> (\<open>None\<close> while the field is
  not mounted), \<open>configRef\<close> is \<open>configRef.current\<close>; both are returned as the effect
  leaves them. \<open>ref.current?.setOptions(config)\<close> does nothing on an absent field.
\<close>

definition useUpdateOptions_effect ::
  "mathfield option \<Rightarrow> obj \<Rightarrow> obj \<Rightarrow> mathfield option \<times> obj" where
  "useUpdateOptions_effect ref config configRef =
     (if \<not> isEqual configRef config then
        ((case ref of None \<Rightarrow> None | Some w \<Rightarrow> Some (setOptions w config)), config)
      else (ref, configRef))"

text \<open>
  One render with its effect. The state of the hook is \<open>None\<close> before the first render;
  \<open>useRef(config)\<close> takes its argument on the first render only.
\<close>

definition useUpdateOptions ::
  "mathfield option \<Rightarrow> obj \<Rightarrow> obj option \<Rightarrow> mathfield option \<times> obj option" where
  "useUpdateOptions ref config hook =
     (let configRef = (case hook of None \<Rightarrow> config | Some c \<Rightarrow> c) in
      case useUpdateOptions_effect ref config configRef of
        (ref', configRef') \<Rightarrow> (ref', Some configRef'))"

text \<open>Renders in sequence, each with its configuration, on the same field.\<close>

fun renders ::
  "mathfield option \<Rightarrow> obj option \<Rightarrow> obj list \<Rightarrow> mathfield option \<times> obj option" where
  "renders ref hook [] = (ref, hook)"
| "renders ref hook (config # configs) =
     (case useUpdateOptions ref config hook of
        (ref', hook') \<Rightarrow> renders ref' hook' configs)"

text \<open>The calls of \<open>setOptions\<close> a field has received (none on an absent field).\<close>

definition calls :: "mathfield option \<Rightarrow> obj list" where
  "calls ref = (case ref of None \<Rightarrow> [] | Some w \<Rightarrow> options_calls w)"

section \<open>useEventRegistration\<close>

text \<open>
  The widget node as an event target: its listeners, each an event type with the identity
  of the listening function, in the order they were added. Adding a listener that is
  already there does nothing; removing one that is not there does nothing.
\<close>

record node =
  listeners :: "(string \<times> nat) list"

definition addEventListener :: "node \<Rightarrow> string \<Rightarrow> nat \<Rightarrow> node" where
  "addEventListener n t f =
     (if (t, f) \<in> set (listeners n) then n
      else n\<lparr>listeners := listeners n @ [(t, f)]\<rparr>)"

definition removeEventListener :: "node \<Rightarrow> string \<Rightarrow> nat \<Rightarrow> node" where
  "removeEventListener n t f = n\<lparr>listeners := removeAll (t, f) (listeners n)\<rparr>"

text \<open>The listening functions an event of type \<open>t\<close> invokes on the node.\<close>

definition fired :: "node \<Rightarrow> string \<Rightarrow> nat list" where
  "fired n t = map snd (filter (\<lambda>l. fst l = t) (listeners n))"

text \<open>
  An element of \<open>fns\<close>: the event name, the forwarding function made for it (a new
  function object each time, known by its identity) and the prop it calls.
\<close>

record handlerEntry =
  entry_key :: string
  entry_fn :: nat
  entry_calls :: jsval

text \<open>\<open>FUNCTION_MAPPING[k]\<close>; a missing entry reads as \<open>undefined\<close>.\<close>

definition eventName :: "string \<Rightarrow> string" where
  "eventName k = (case map_of FUNCTION_MAPPING k of Some e \<Rightarrow> e | None \<Rightarrow> ''undefined'')"

text \<open>The keys the filter of \<open>useEventRegistration\<close> keeps.\<close>

definition handlerKeys :: "props \<Rightarrow> string list" where
  "handlerKeys ps =
     filter (\<lambda>key. typeof (getProp ps key) = ''function''
                   \<and> indexOf (map Name FUNCTION_PROPS) (renamed key) > - 1)
       (map fst ps)"

text \<open>
  \<open>fns\<close>: one entry for each key kept; the functions made are numbered from \<open>fresh\<close>,
  the first identity no function has yet.
\<close>

definition makeFns :: "props \<Rightarrow> nat \<Rightarrow> handlerEntry list" where
  "makeFns ps fresh =
     map (\<lambda>(i, key).
            \<lparr>entry_key = eventName (propertyKey (renamed key)), entry_fn = i,
             entry_calls = getProp ps key\<rparr>)
       (enumerate fresh (handlerKeys ps))"

text \<open>
  The effect: the node as it leaves it, and the list the returned cleanup closes over
  (\<open>None\<close> when the effect returns no cleanup, the node being absent).
\<close>

definition useEventRegistration_effect ::
  "node option \<Rightarrow> props \<Rightarrow> nat \<Rightarrow> node option \<times> handlerEntry list option" where
  "useEventRegistration_effect ref ps fresh =
     (case ref of
        None \<Rightarrow> (None, None)
      | Some n \<Rightarrow>
          (let fns = makeFns ps fresh in
           (Some (foldl (\<lambda>m e. addEventListener m (entry_key e) (entry_fn e)) n fns),
            Some fns)))"

definition useEventRegistration_cleanup :: "handlerEntry list \<Rightarrow> node \<Rightarrow> node" where
  "useEventRegistration_cleanup fns n =
     foldl (\<lambda>m e. removeEventListener m (entry_key e) (entry_fn e)) n fns"

section \<open>useEventDispatchRef\<close>

datatype js_error = TypeError | NotFoundError

text \<open>
  A property descriptor, as far as \<open>dispatchEvent\<close> reads it: its \<open>set\<close> function
  (by identity) when it has one.
\<close>

record descriptor =
  desc_set :: "nat option"

text \<open>
  The input element: the descriptor of its own \<open>value\<close> property and the descriptor of
  the \<open>value\<close> property of its prototype, each \<open>None\<close> when
  \<open>Object.getOwnPropertyDescriptor\<close> returns \<open>undefined\<close>.
\<close>

record inputElement =
  own_value :: "descriptor option"
  proto_value :: "descriptor option"

record detail =
  detail_value :: string
  detail_more :: "(string \<times> jsval) list"

record customEvent =
  ev_type :: string
  ev_bubbles :: bool
  ev_cancelable :: bool
  ev_detail :: detail

text \<open>What a dispatch does to the element, in order.\<close>

datatype action = SetterCall nat string | EventDispatched customEvent

text \<open>
  \<open>dispatchEvent\<close>. Reading \<open>.set\<close> of an absent descriptor and calling an absent
  setter raise a TypeError; the non-null assertions of the source do nothing at run time.
\<close>

definition dispatchEvent ::
  "inputElement option \<Rightarrow> string \<Rightarrow> detail \<Rightarrow> js_error + action list" where
  "dispatchEvent ref type d =
     (case ref of
        None \<Rightarrow> Inr []
      | Some handler \<Rightarrow>
          (case own_value handler of
             None \<Rightarrow> Inl TypeError
           | Some own \<Rightarrow>
               (let valueSetter = desc_set own in
                case proto_value handler of
                  None \<Rightarrow> Inl TypeError
                | Some proto \<Rightarrow>
                    (let prototypeValueSetter = desc_set proto;
                         event = \<lparr>ev_type = type, ev_bubbles = True, ev_cancelable = True,
                                  ev_detail = d\<rparr>
                     in
                     if valueSetter \<noteq> None \<and> valueSetter \<noteq> prototypeValueSetter then
                       (case prototypeValueSetter of
                          None \<Rightarrow> Inl TypeError
                        | Some s \<Rightarrow> Inr [SetterCall s (detail_value d), EventDispatched event])
                     else
                       (case valueSetter of
                          None \<Rightarrow> Inl TypeError
                        | Some s \<Rightarrow> Inr [SetterCall s (detail_value d), EventDispatched event])))))"

section \<open>useAddChild\<close>

text \<open>
  The children of \<open>document.body\<close>, by identity, in order; a node is a child at most once.
  \<open>appendChild\<close> moves a node that is already a child to the end; \<open>removeChild\<close> raises
  a NotFoundError for a node that is not a child.
\<close>

definition appendChild :: "nat list \<Rightarrow> nat \<Rightarrow> nat list" where
  "appendChild body c = removeAll c body @ [c]"

definition removeChild :: "nat list \<Rightarrow> nat \<Rightarrow> js_error + nat list" where
  "removeChild body c = (if c \<in> set body then Inr (removeAll c body) else Inl NotFoundError)"

definition useAddChild_effect :: "nat list \<Rightarrow> nat \<Rightarrow> nat list" where
  "useAddChild_effect body container = appendChild body container"

definition useAddChild_cleanup :: "nat list \<Rightarrow> nat \<Rightarrow> js_error + nat list" where
  "useAddChild_cleanup body container = removeChild body container"

section \<open>Basic facts\<close>

lemma indexOf_ge: "- 1 \<le> indexOf xs x"
  by (induction xs) (auto simp: Let_def)

lemma indexOf_mem: "(indexOf xs x > - 1) = (x \<in> set xs)"
proof (induction xs)
  case Nil
  show ?case by simp
next
  case (Cons y ys)
  have "- 1 \<le> indexOf ys x" by (rule indexOf_ge)
  with Cons show ?case by (auto simp: Let_def)
qed

text \<open>
  A member of \<open>Object.prototype\<close> is not a string, so \<open>indexOf\<close> finds it in neither
  table; the string it gives as a property name is in neither table, and its name is in
  none of the three tables.
\<close>

lemma Object_prototype_forms:
  "f \<in> snd ` set Object_prototype \<Longrightarrow> f \<notin> set OPTIONS \<and> f \<notin> set FUNCTION_PROPS"
  unfolding Object_prototype_def OPTIONS_def FUNCTION_PROPS_def FUNCTION_MAPPING_def
  by (elim imageE) (simp, elim disjE, simp_all)

lemma Object_prototype_names:
  "n \<in> fst ` set Object_prototype \<Longrightarrow>
     n \<notin> set OPTIONS \<and> n \<notin> set FUNCTION_PROPS \<and> map_of MAPPING n = None"
  unfolding Object_prototype_def OPTIONS_def FUNCTION_PROPS_def FUNCTION_MAPPING_def
    MAPPING_def
  by (elim imageE) (simp, elim disjE, simp_all)

lemma renamed_Member: "renamed k = Member f \<Longrightarrow> f \<in> snd ` set Object_prototype"
proof -
  assume m: "renamed k = Member f"
  then have "map_of Object_prototype k = Some f"
    by (auto simp: renamed_def split: option.splits if_splits)
  then have "(k, f) \<in> set Object_prototype" by (rule map_of_SomeD)
  then show ?thesis by force
qed

lemma indexOf_table:
  "(indexOf (map Name xs) key > - 1) = (\<exists>s \<in> set xs. key = Name s)"
  by (auto simp: indexOf_mem)

lemma in_FUNCTION_PROPS:
  "(indexOf (map Name FUNCTION_PROPS) (renamed k) > - 1) = (storedKey k \<in> set FUNCTION_PROPS)"
proof (cases "renamed k")
  case (Name s)
  then show ?thesis by (auto simp: indexOf_table)
next
  case (Member f)
  with renamed_Member [OF Member] Object_prototype_forms [of f] show ?thesis
    by (auto simp: indexOf_table)
qed

lemma in_OPTIONS:
  "(indexOf (map Name OPTIONS) (renamed k) > - 1) = (storedKey k \<in> set OPTIONS)"
proof (cases "renamed k")
  case (Name s)
  then show ?thesis by (auto simp: indexOf_table)
next
  case (Member f)
  with renamed_Member [OF Member] Object_prototype_forms [of f] show ?thesis
    by (auto simp: indexOf_table)
qed

text \<open>One turn of the loop, by the branch it takes.\<close>

lemma filterConfig_loop_handler:
  "storedKey rawKey \<in> set FUNCTION_PROPS \<Longrightarrow>
   filterConfig_loop r ((rawKey, v) # rest) config passProps =
   filterConfig_loop r rest config passProps"
  by (simp add: Let_def in_FUNCTION_PROPS in_OPTIONS)

lemma filterConfig_loop_option:
  "storedKey rawKey \<notin> set FUNCTION_PROPS \<Longrightarrow> storedKey rawKey \<in> set OPTIONS \<Longrightarrow>
   filterConfig_loop r ((rawKey, v) # rest) config passProps =
   filterConfig_loop r rest
     (config(storedKey rawKey \<mapsto>
        (if isValidElement v \<or> (instanceofArray v \<and> every isValidElement v)
         then JStr (r v) else v)))
     passProps"
  by (simp add: Let_def in_FUNCTION_PROPS in_OPTIONS)

lemma filterConfig_loop_pass:
  "storedKey rawKey \<notin> set FUNCTION_PROPS \<Longrightarrow> storedKey rawKey \<notin> set OPTIONS \<Longrightarrow>
   filterConfig_loop r ((rawKey, v) # rest) config passProps =
   filterConfig_loop r rest config (passProps(storedKey rawKey \<mapsto> v))"
  by (simp add: Let_def in_FUNCTION_PROPS in_OPTIONS)

lemmas filterConfig_loop_turn =
  filterConfig_loop_handler filterConfig_loop_option filterConfig_loop_pass

declare filterConfig_loop.simps(2) [simp del]

lemma filterConfig_loop_config_dom:
  "dom (fst (filterConfig_loop r ps config passProps))
     \<subseteq> dom config \<union> (set OPTIONS - set FUNCTION_PROPS)"
proof (induction ps arbitrary: config passProps)
  case Nil
  show ?case by simp
next
  case (Cons p ps)
  obtain rawKey v where p: "p = (rawKey, v)" by (cases p)
  consider (handler) "storedKey rawKey \<in> set FUNCTION_PROPS"
    | (option) "storedKey rawKey \<notin> set FUNCTION_PROPS" "storedKey rawKey \<in> set OPTIONS"
    | (pass) "storedKey rawKey \<notin> set FUNCTION_PROPS" "storedKey rawKey \<notin> set OPTIONS"
    by blast
  then show ?case
  proof cases
    case handler
    show ?thesis
      unfolding p filterConfig_loop_handler [OF handler] by (rule Cons.IH)
  next
    case option
    let ?c = "config(storedKey rawKey \<mapsto>
        (if isValidElement v \<or> (instanceofArray v \<and> every isValidElement v)
         then JStr (r v) else v))"
    have "dom ?c \<subseteq> dom config \<union> (set OPTIONS - set FUNCTION_PROPS)"
      using option by auto
    with Cons.IH [of ?c passProps] show ?thesis
      unfolding p filterConfig_loop_option [OF option] by blast
  next
    case pass
    show ?thesis
      unfolding p filterConfig_loop_pass [OF pass] by (rule Cons.IH)
  qed
qed

section \<open>The configuration object holds recognised options only\<close>

text \<open>
  Claim C4. Whatever the props, every key of the configuration object that
  \<open>filterConfig\<close> returns is one of \<open>OPTIONS\<close>, and none is a key of
  \<open>FUNCTION_MAPPING\<close>; \<open>onCommit\<close>, which is in both tables, is never a key of it.
\<close>

theorem filterConfig_config_keys:
  "dom (fst (filterConfig r ps)) \<subseteq> set OPTIONS
   \<and> dom (fst (filterConfig r ps)) \<inter> set FUNCTION_PROPS = {}
   \<and> ''onCommit'' \<in> set OPTIONS \<inter> set FUNCTION_PROPS
   \<and> fst (filterConfig r ps) ''onCommit'' = None"
proof -
  have sub: "dom (fst (filterConfig r ps)) \<subseteq> set OPTIONS - set FUNCTION_PROPS"
    using filterConfig_loop_config_dom [of r ps Map.empty Map.empty]
    by (simp add: filterConfig_def)
  have both: "''onCommit'' \<in> set OPTIONS \<inter> set FUNCTION_PROPS"
    by (simp add: OPTIONS_def FUNCTION_PROPS_def FUNCTION_MAPPING_def)
  from sub both have "''onCommit'' \<notin> dom (fst (filterConfig r ps))" by blast
  then have "fst (filterConfig r ps) ''onCommit'' = None" by (simp add: domIff)
  with sub both show ?thesis by blast
qed

section \<open>The option updater\<close>

lemma readOnly_differs:
  "\<not> isEqual [''readOnly'' \<mapsto> JBool True] [''readOnly'' \<mapsto> JBool False]"
  by (auto simp: isEqual_def dest: map_upd_eqD1)

lemma readOnly_same:
  "isEqual [''readOnly'' \<mapsto> JBool False] [''readOnly'' \<mapsto> JBool False]"
  by (simp add: isEqual_def)

lemma locale_equal:
  "isEqual [''locale'' \<mapsto> JStr ''fr''] [''locale'' \<mapsto> JStr ''fr'']"
  by (simp add: isEqual_def)

text \<open>
  Claim C2, as stated: two configurations that differ, rendered in sequence from the
  first render on, make two calls of \<open>setOptions\<close>, one with each. It fails: with
  \<open>{readOnly: true}\<close> and then \<open>{readOnly: false}\<close> on a mounted field, the one call made
  is the second's.
\<close>

theorem useUpdateOptions_different_counterexample:
  "\<not> isEqual [''readOnly'' \<mapsto> JBool True] [''readOnly'' \<mapsto> JBool False]
   \<and> calls (fst (renders (Some \<lparr>options_calls = []\<rparr>) None
        [[''readOnly'' \<mapsto> JBool True], [''readOnly'' \<mapsto> JBool False]]))
     = [[''readOnly'' \<mapsto> JBool False]]
   \<and> length (calls (fst (renders (Some \<lparr>options_calls = []\<rparr>) None
        [[''readOnly'' \<mapsto> JBool True], [''readOnly'' \<mapsto> JBool False]]))) \<noteq> 2"
  using readOnly_differs
  by (simp add: isEqual_def useUpdateOptions_def useUpdateOptions_effect_def
        setOptions_def calls_def)

text \<open>
  Claim C2, amended. The stored configuration starts as the first one seen, so the first
  render compares that configuration with itself and calls nothing; the second render, of
  a configuration that differs, on a mounted field, calls \<open>setOptions\<close> once, with the
  second configuration, and stores it. With a configuration stored from before, the two
  renders call \<open>setOptions\<close> with the second configuration and, before that, with the
  first one exactly when it differs from the stored one.
\<close>

theorem useUpdateOptions_different:
  assumes "\<not> isEqual c1 c2"
  shows "useUpdateOptions (Some w) c1 None = (Some w, Some c1)
         \<and> renders (Some w) None [c1, c2]
           = (Some (w\<lparr>options_calls := options_calls w @ [c2]\<rparr>), Some c2)
         \<and> calls (fst (renders (Some w) hook [c1, c2]))
           = calls (Some w)
             @ (case hook of None \<Rightarrow> [] | Some prev \<Rightarrow> if isEqual prev c1 then [] else [c1])
             @ [c2]"
  using assms
  by (cases hook)
     (auto simp: isEqual_def useUpdateOptions_def useUpdateOptions_effect_def
        setOptions_def calls_def)

theorem useUpdateOptions_different_witness:
  "\<not> isEqual [''readOnly'' \<mapsto> JBool True] [''readOnly'' \<mapsto> JBool False]
   \<and> calls (fst (renders (Some \<lparr>options_calls = []\<rparr>) None
        [[''readOnly'' \<mapsto> JBool True], [''readOnly'' \<mapsto> JBool False]]))
     = [[''readOnly'' \<mapsto> JBool False]]
   \<and> calls (fst (renders (Some \<lparr>options_calls = []\<rparr>) (Some [''readOnly'' \<mapsto> JBool False])
        [[''readOnly'' \<mapsto> JBool True], [''readOnly'' \<mapsto> JBool False]]))
     = [[''readOnly'' \<mapsto> JBool True], [''readOnly'' \<mapsto> JBool False]]"
proof -
  have sym: "\<not> isEqual [''readOnly'' \<mapsto> JBool False] [''readOnly'' \<mapsto> JBool True]"
    using readOnly_differs by (simp add: isEqual_def eq_commute)
  from useUpdateOptions_different [OF readOnly_differs, of "\<lparr>options_calls = []\<rparr>" None]
    useUpdateOptions_different [OF readOnly_differs, of "\<lparr>options_calls = []\<rparr>"
      "Some [''readOnly'' \<mapsto> JBool False]"]
    readOnly_differs sym
  show ?thesis by (simp add: calls_def)
qed

text \<open>
  Claim C3. Two configurations that are equal, rendered one after the other: whatever the
  hook has stored before and whether the field is mounted or not, the first render makes
  at most one call of \<open>setOptions\<close>, and the second leaves the field and the stored
  configuration as they are. From the first render on, neither render makes a call.
\<close>

theorem useUpdateOptions_equal:
  assumes "isEqual c1 c2"
  shows "(case useUpdateOptions r1 c1 hook of
            (r1', hook') \<Rightarrow>
              length (calls r1') \<le> length (calls r1) + 1
              \<and> useUpdateOptions r2 c2 hook' = (r2, hook'))
         \<and> renders r1 None [c1, c2] = (r1, Some c1)"
  using assms
  by (cases hook; cases r1)
     (auto simp: isEqual_def useUpdateOptions_def useUpdateOptions_effect_def
        setOptions_def calls_def)

theorem useUpdateOptions_equal_witness:
  "isEqual [''locale'' \<mapsto> JStr ''fr''] [''locale'' \<mapsto> JStr ''fr'']
   \<and> renders (Some \<lparr>options_calls = []\<rparr>) None
        [[''locale'' \<mapsto> JStr ''fr''], [''locale'' \<mapsto> JStr ''fr'']]
       = (Some \<lparr>options_calls = []\<rparr>, Some [''locale'' \<mapsto> JStr ''fr''])"
  using locale_equal
    useUpdateOptions_equal [OF locale_equal, of "Some \<lparr>options_calls = []\<rparr>"]
  by blast

text \<open>
  Claim C9. A render while the field is absent, with a configuration that differs from the
  stored one, stores the new configuration all the same; a later render on the mounted
  field with an equal configuration then makes no call of \<open>setOptions\<close>.
\<close>

theorem useUpdateOptions_absent_field:
  assumes "\<not> isEqual prev c" and "isEqual c c'"
  shows "useUpdateOptions None c (Some prev) = (None, Some c)
         \<and> useUpdateOptions (Some w) c' (Some c) = (Some w, Some c)
         \<and> calls (fst (useUpdateOptions (Some w) c' (Some c))) = calls (Some w)"
  using assms
  by (simp add: isEqual_def useUpdateOptions_def useUpdateOptions_effect_def calls_def)

theorem useUpdateOptions_absent_field_witness:
  "\<not> isEqual [''readOnly'' \<mapsto> JBool True] [''readOnly'' \<mapsto> JBool False]
   \<and> isEqual [''readOnly'' \<mapsto> JBool False] [''readOnly'' \<mapsto> JBool False]
   \<and> useUpdateOptions None [''readOnly'' \<mapsto> JBool False] (Some [''readOnly'' \<mapsto> JBool True])
       = (None, Some [''readOnly'' \<mapsto> JBool False])
   \<and> useUpdateOptions (Some \<lparr>options_calls = []\<rparr>) [''readOnly'' \<mapsto> JBool False]
        (Some [''readOnly'' \<mapsto> JBool False])
       = (Some \<lparr>options_calls = []\<rparr>, Some [''readOnly'' \<mapsto> JBool False])"
  using useUpdateOptions_absent_field
      [OF readOnly_differs readOnly_same, of "\<lparr>options_calls = []\<rparr>"]
    readOnly_differs readOnly_same
  by blast

section \<open>The synthetic-input dispatcher\<close>

text \<open>When \<open>dispatchEvent\<close> does nothing, and when it raises.\<close>

lemma dispatchEvent_failures:
  "dispatchEvent None type d = Inr []"
  "own_value el = None \<Longrightarrow> dispatchEvent (Some el) type d = Inl TypeError"
  "proto_value el = None \<Longrightarrow> dispatchEvent (Some el) type d = Inl TypeError"
  "own_value el = Some own \<Longrightarrow> desc_set own = None \<Longrightarrow>
     dispatchEvent (Some el) type d = Inl TypeError"
  by (auto simp: dispatchEvent_def split: option.splits)

text \<open>
  Claim C7, as stated: the setter called is the element's own when it is present and is
  not the prototype's. It fails: on an element whose own setter is function 1 and whose
  prototype's setter is function 2, the setter called is function 2.
\<close>

theorem dispatchEvent_setter_counterexample:
  "dispatchEvent
     (Some \<lparr>own_value = Some \<lparr>desc_set = Some 1\<rparr>, proto_value = Some \<lparr>desc_set = Some 2\<rparr>\<rparr>)
     ''input'' \<lparr>detail_value = ''x'', detail_more = []\<rparr>
   = Inr [SetterCall 2 ''x'',
          EventDispatched \<lparr>ev_type = ''input'', ev_bubbles = True, ev_cancelable = True,
            ev_detail = \<lparr>detail_value = ''x'', detail_more = []\<rparr>\<rparr>]
   \<and> dispatchEvent
     (Some \<lparr>own_value = Some \<lparr>desc_set = Some 1\<rparr>, proto_value = Some \<lparr>desc_set = Some 2\<rparr>\<rparr>)
     ''input'' \<lparr>detail_value = ''x'', detail_more = []\<rparr>
   \<noteq> Inr [SetterCall 1 ''x'',
          EventDispatched \<lparr>ev_type = ''input'', ev_bubbles = True, ev_cancelable = True,
            ev_detail = \<lparr>detail_value = ''x'', detail_more = []\<rparr>\<rparr>]"
  by (simp add: dispatchEvent_def)

text \<open>
  Claim C7, amended. On a bound element whose own \<open>value\<close> descriptor and whose
  prototype's \<open>value\<close> descriptor both have a setter, the setter called is the
  prototype's when the own setter is another function, and the own setter otherwise; it is
  called with \<open>detail.value\<close>, and then one custom event of the given type is dispatched,
  bubbling, cancelable, with the detail.
\<close>

theorem dispatchEvent_setter:
  assumes "own_value el = Some own" and "proto_value el = Some proto"
    and "desc_set own = Some s" and "desc_set proto = Some p"
  shows "dispatchEvent (Some el) type d =
           Inr [SetterCall (if s \<noteq> p then p else s) (detail_value d),
                EventDispatched \<lparr>ev_type = type, ev_bubbles = True, ev_cancelable = True,
                  ev_detail = d\<rparr>]"
  using assms by (simp add: dispatchEvent_def)

theorem dispatchEvent_setter_witness:
  "own_value \<lparr>own_value = Some \<lparr>desc_set = Some 1\<rparr>, proto_value = Some \<lparr>desc_set = Some 2\<rparr>\<rparr>
     = Some \<lparr>desc_set = Some 1\<rparr>
   \<and> proto_value \<lparr>own_value = Some \<lparr>desc_set = Some 1\<rparr>, proto_value = Some \<lparr>desc_set = Some 2\<rparr>\<rparr>
     = Some \<lparr>desc_set = Some 2\<rparr>
   \<and> dispatchEvent
     (Some \<lparr>own_value = Some \<lparr>desc_set = Some 1\<rparr>, proto_value = Some \<lparr>desc_set = Some 2\<rparr>\<rparr>)
     ''change'' \<lparr>detail_value = ''x^2'', detail_more = []\<rparr>
   = Inr [SetterCall 2 ''x^2'',
          EventDispatched \<lparr>ev_type = ''change'', ev_bubbles = True, ev_cancelable = True,
            ev_detail = \<lparr>detail_value = ''x^2'', detail_more = []\<rparr>\<rparr>]"
  using dispatchEvent_setter
    [of "\<lparr>own_value = Some \<lparr>desc_set = Some 1\<rparr>, proto_value = Some \<lparr>desc_set = Some 2\<rparr>\<rparr>"
        "\<lparr>desc_set = Some 1\<rparr>" "\<lparr>desc_set = Some 2\<rparr>" 1 2 "''change''"
        "\<lparr>detail_value = ''x^2'', detail_more = []\<rparr>"]
  by simp

section \<open>The detached node\<close>

text \<open>
  Claim C8, as stated: the teardown does not throw when the node is already gone from the
  body. It fails: the teardown after the mount succeeds, and the teardown on a body that
  no longer holds the node raises a NotFoundError.
\<close>

theorem useAddChild_cleanup_counterexample:
  "useAddChild_cleanup (useAddChild_effect [] 7) 7 = Inr []
   \<and> useAddChild_cleanup [] 7 = Inl NotFoundError"
  by (simp add: useAddChild_cleanup_def useAddChild_effect_def appendChild_def removeChild_def)

text \<open>
  Claim C8, amended. The teardown run on the body the mount left removes the node and
  does not throw; run when the node is not a child of the body it raises a NotFoundError,
  so a second teardown after one that succeeded raises.
\<close>

theorem useAddChild_cleanup_once:
  "useAddChild_cleanup (useAddChild_effect body c) c = Inr (removeAll c body)
   \<and> (c \<notin> set body \<longrightarrow> useAddChild_cleanup body c = Inl NotFoundError)
   \<and> (useAddChild_cleanup body c = Inr body' \<longrightarrow>
        c \<notin> set body' \<and> useAddChild_cleanup body' c = Inl NotFoundError)"
  by (auto simp: useAddChild_cleanup_def useAddChild_effect_def appendChild_def removeChild_def
      split: if_splits)

theorem useAddChild_cleanup_once_witness:
  "useAddChild_cleanup (useAddChild_effect [3] 7) 7 = Inr [3]
   \<and> 7 \<notin> set [3::nat] \<and> useAddChild_cleanup [3] 7 = Inl NotFoundError
   \<and> useAddChild_cleanup [3, 7] 7 = Inr [3]"
  using useAddChild_cleanup_once [of "[3]" 7 "[3]"]
    useAddChild_cleanup_once [of "[3, 7]" 7 "[3]"]
  by (simp add: useAddChild_cleanup_def removeChild_def)

section \<open>The event bridge\<close>

text \<open>What the cleanup leaves, and what the effect adds.\<close>

lemma cleanup_listeners:
  "listeners (useEventRegistration_cleanup fns n) =
     filter (\<lambda>l. l \<notin> set (map (\<lambda>e. (entry_key e, entry_fn e)) fns)) (listeners n)"
proof (induction fns arbitrary: n)
  case Nil
  show ?case by (simp add: useEventRegistration_cleanup_def)
next
  case (Cons e fns)
  have "listeners (useEventRegistration_cleanup (e # fns) n) =
        listeners (useEventRegistration_cleanup fns
          (removeEventListener n (entry_key e) (entry_fn e)))"
    by (simp add: useEventRegistration_cleanup_def)
  also have "\<dots> = filter (\<lambda>l. l \<notin> set (map (\<lambda>e. (entry_key e, entry_fn e)) fns))
      (removeAll (entry_key e, entry_fn e) (listeners n))"
    by (simp add: Cons.IH removeEventListener_def)
  also have "\<dots> = filter (\<lambda>l. l \<notin> set (map (\<lambda>e. (entry_key e, entry_fn e)) (e # fns)))
      (listeners n)"
    by (auto simp: removeAll_filter_not_eq intro: filter_cong)
  finally show ?case .
qed

lemma attach_set:
  "set (listeners (foldl (\<lambda>m e. addEventListener m (entry_key e) (entry_fn e)) n fns)) =
     set (listeners n) \<union> set (map (\<lambda>e. (entry_key e, entry_fn e)) fns)"
  by (induction fns arbitrary: n) (auto simp: addEventListener_def)

lemma attach_fresh:
  "distinct (map (\<lambda>e. (entry_key e, entry_fn e)) fns) \<Longrightarrow>
   set (map (\<lambda>e. (entry_key e, entry_fn e)) fns) \<inter> set (listeners n) = {} \<Longrightarrow>
   listeners (foldl (\<lambda>m e. addEventListener m (entry_key e) (entry_fn e)) n fns) =
     listeners n @ map (\<lambda>e. (entry_key e, entry_fn e)) fns"
proof (induction fns arbitrary: n)
  case Nil
  show ?case by simp
next
  case (Cons e fns)
  let ?n = "addEventListener n (entry_key e) (entry_fn e)"
  from Cons.prems have new: "(entry_key e, entry_fn e) \<notin> set (listeners n)" by auto
  then have n1: "listeners ?n = listeners n @ [(entry_key e, entry_fn e)]"
    by (simp add: addEventListener_def)
  from Cons.prems have d: "distinct (map (\<lambda>e. (entry_key e, entry_fn e)) fns)" by simp
  from Cons.prems have "set (map (\<lambda>e. (entry_key e, entry_fn e)) fns) \<inter> set (listeners ?n) = {}"
    unfolding n1 by auto
  from Cons.IH [OF d this] show ?case by (simp add: n1)
qed

lemma makeFns_ids:
  "map entry_fn (makeFns ps fresh) = [fresh ..< fresh + length (handlerKeys ps)]"
proof -
  have "map entry_fn (makeFns ps fresh) = map fst (enumerate fresh (handlerKeys ps))"
    by (simp add: makeFns_def split_def comp_def)
  then show ?thesis by (simp add: map_fst_enumerate)
qed

lemma makeFns_distinct:
  "distinct (map (\<lambda>e. (entry_key e, entry_fn e)) (makeFns ps fresh))"
proof -
  have "distinct (map entry_fn (makeFns ps fresh))" by (simp add: makeFns_ids)
  then have "distinct (map (snd \<circ> (\<lambda>e. (entry_key e, entry_fn e))) (makeFns ps fresh))"
    by (simp add: comp_def)
  then have "distinct (map snd (map (\<lambda>e. (entry_key e, entry_fn e)) (makeFns ps fresh)))"
    by simp
  then show ?thesis using distinct_map by blast
qed

lemma makeFns_fresh:
  "e \<in> set (makeFns ps fresh) \<Longrightarrow> fresh \<le> entry_fn e"
proof -
  assume "e \<in> set (makeFns ps fresh)"
  then have "entry_fn e \<in> set (map entry_fn (makeFns ps fresh))" by simp
  then show ?thesis unfolding makeFns_ids by simp
qed

text \<open>
  Claim C5. After an effect run on a mounted node, every listener of \<open>fns\<close> is on the
  node; the cleanup of that run, whatever the node holds when it runs, leaves none of them
  on it. When the functions the node held before are older than the ones the run made,
  the cleanup run after the effect gives back the listeners the node had, so an event
  invokes what it invoked before the mount, and nothing on a node that had no listener.
\<close>

theorem useEventRegistration_cleanup_removes:
  assumes "useEventRegistration_effect (Some n) ps fresh = (Some n', Some fns)"
  shows "(\<forall>e \<in> set fns. (entry_key e, entry_fn e) \<in> set (listeners n'))
       \<and> (\<forall>e \<in> set fns.
            (entry_key e, entry_fn e) \<notin> set (listeners (useEventRegistration_cleanup fns later)))
       \<and> ((\<forall>l \<in> set (listeners n). snd l < fresh) \<longrightarrow>
            listeners (useEventRegistration_cleanup fns n') = listeners n
            \<and> fired (useEventRegistration_cleanup fns n') t = fired n t)
       \<and> (listeners n = [] \<longrightarrow> fired (useEventRegistration_cleanup fns n') t = [])"
proof -
  let ?pair = "\<lambda>e. (entry_key e, entry_fn e)"
  from assms have fns: "fns = makeFns ps fresh"
    and n': "n' = foldl (\<lambda>m e. addEventListener m (entry_key e) (entry_fn e)) n fns"
    by (auto simp: useEventRegistration_effect_def Let_def)
  have attached: "\<forall>e \<in> set fns. ?pair e \<in> set (listeners n')"
    unfolding n' attach_set by simp
  have removed: "\<forall>e \<in> set fns. ?pair e \<notin> set (listeners (useEventRegistration_cleanup fns later))"
    unfolding cleanup_listeners by simp
  have restored: "listeners (useEventRegistration_cleanup fns n') = listeners n"
    if old: "\<forall>l \<in> set (listeners n). snd l < fresh"
  proof -
    have disj: "set (map ?pair fns) \<inter> set (listeners n) = {}"
    proof (rule ccontr)
      assume "set (map ?pair fns) \<inter> set (listeners n) \<noteq> {}"
      then obtain e where e: "e \<in> set fns" and l: "?pair e \<in> set (listeners n)" by auto
      from e have "fresh \<le> entry_fn e" unfolding fns by (rule makeFns_fresh)
      moreover from old l have "entry_fn e < fresh" by fastforce
      ultimately show False by simp
    qed
    have d: "distinct (map ?pair fns)" unfolding fns by (rule makeFns_distinct)
    have "listeners n' = listeners n @ map ?pair fns"
      unfolding n' by (rule attach_fresh [OF d disj])
    then have "listeners (useEventRegistration_cleanup fns n') =
        filter (\<lambda>l. l \<notin> set (map ?pair fns)) (listeners n @ map ?pair fns)"
      by (simp only: cleanup_listeners)
    also have "\<dots> = filter (\<lambda>l. l \<notin> set (map ?pair fns)) (listeners n)"
      by simp
    also have "\<dots> = listeners n"
      using disj by (auto simp: filter_id_conv)
    finally show ?thesis .
  qed
  have same: "fired (useEventRegistration_cleanup fns n') t = fired n t"
    if "\<forall>l \<in> set (listeners n). snd l < fresh"
    using restored [OF that] by (simp add: fired_def)
  have none: "fired (useEventRegistration_cleanup fns n') t = []" if "listeners n = []"
  proof -
    from that have "\<forall>l \<in> set (listeners n). snd l < fresh" by simp
    from restored [OF this] that show ?thesis by (simp add: fired_def)
  qed
  from attached removed restored same none show ?thesis by blast
qed

text \<open>A mount with an \<open>onCommit\<close> callback and a class name.\<close>

lemma bridge_example:
  "useEventRegistration_effect (Some \<lparr>listeners = []\<rparr>)
      [(''onCommit'', JFunc 5), (''className'', JStr ''foo'')] 0
     = (Some \<lparr>listeners = [(''change'', 0)]\<rparr>,
        Some [\<lparr>entry_key = ''change'', entry_fn = 0, entry_calls = JFunc 5\<rparr>])"
  by (simp add: useEventRegistration_effect_def makeFns_def handlerKeys_def getProp_def
      renamed_def MAPPING_def Object_prototype_def FUNCTION_PROPS_def FUNCTION_MAPPING_def
      eventName_def addEventListener_def enumerate_eq_zip)

theorem useEventRegistration_cleanup_removes_witness:
  "useEventRegistration_effect (Some \<lparr>listeners = []\<rparr>)
      [(''onCommit'', JFunc 5), (''className'', JStr ''foo'')] 0
     = (Some \<lparr>listeners = [(''change'', 0)]\<rparr>,
        Some [\<lparr>entry_key = ''change'', entry_fn = 0, entry_calls = JFunc 5\<rparr>])
   \<and> fired \<lparr>listeners = [(''change'', 0)]\<rparr> ''change'' = [0]
   \<and> listeners (useEventRegistration_cleanup
        [\<lparr>entry_key = ''change'', entry_fn = 0, entry_calls = JFunc 5\<rparr>]
        \<lparr>listeners = [(''change'', 0)]\<rparr>) = []
   \<and> fired (useEventRegistration_cleanup
        [\<lparr>entry_key = ''change'', entry_fn = 0, entry_calls = JFunc 5\<rparr>]
        \<lparr>listeners = [(''change'', 0)]\<rparr>) ''change'' = []"
  using useEventRegistration_cleanup_removes [OF bridge_example, of _ "''change''"] bridge_example
  by (simp add: fired_def)

section \<open>The property classifier\<close>

text \<open>The two renamings, and the keys of the tables they do not touch.\<close>

lemma renamed_plain:
  "k \<notin> fst ` set Object_prototype \<Longrightarrow>
     renamed k = Name (case map_of MAPPING k of Some c \<Rightarrow> c | None \<Rightarrow> k)"
proof -
  assume "k \<notin> fst ` set Object_prototype"
  then have "map_of Object_prototype k = None" by (simp add: map_of_eq_None_iff)
  then show ?thesis by (simp add: renamed_def MAPPING_def)
qed

lemma renamed_cases:
  "renamed k = Name k \<or> renamed k = Name ''class'' \<or> renamed k = Name ''for''
     \<or> (\<exists>f \<in> snd ` set Object_prototype. renamed k = Member f)"
proof (cases "renamed k")
  case (Name s)
  then show ?thesis
    by (auto simp: renamed_def MAPPING_def split: option.splits if_splits)
next
  case (Member f)
  with renamed_Member [OF Member] show ?thesis by blast
qed

lemma OPTIONS_plain:
  "''class'' \<notin> set OPTIONS" "''for'' \<notin> set OPTIONS"
  "''className'' \<notin> set OPTIONS" "''htmlFor'' \<notin> set OPTIONS"
  by (simp_all add: OPTIONS_def)

lemma FUNCTION_PROPS_plain:
  "''class'' \<notin> set FUNCTION_PROPS" "''for'' \<notin> set FUNCTION_PROPS"
  "''className'' \<notin> set FUNCTION_PROPS" "''htmlFor'' \<notin> set FUNCTION_PROPS"
  by (simp_all add: FUNCTION_PROPS_def FUNCTION_MAPPING_def)

lemma renamed_option: "storedKey k \<in> set OPTIONS \<Longrightarrow> renamed k = Name k"
proof (cases "renamed k")
  case (Name s)
  assume "storedKey k \<in> set OPTIONS"
  with Name renamed_cases [of k] OPTIONS_plain show ?thesis by auto
next
  case (Member f)
  assume "storedKey k \<in> set OPTIONS"
  with Member renamed_Member [OF Member] Object_prototype_forms [of f] show ?thesis by simp
qed

lemma renamed_handler: "storedKey k \<in> set FUNCTION_PROPS \<Longrightarrow> renamed k = Name k"
proof (cases "renamed k")
  case (Name s)
  assume "storedKey k \<in> set FUNCTION_PROPS"
  with Name renamed_cases [of k] FUNCTION_PROPS_plain show ?thesis by auto
next
  case (Member f)
  assume "storedKey k \<in> set FUNCTION_PROPS"
  with Member renamed_Member [OF Member] Object_prototype_forms [of f] show ?thesis by simp
qed

lemma option_renamed: "k \<in> set OPTIONS \<Longrightarrow> renamed k = Name k"
proof -
  assume k: "k \<in> set OPTIONS"
  with Object_prototype_names [of k] have "k \<notin> fst ` set Object_prototype" by blast
  from renamed_plain [OF this] k OPTIONS_plain show ?thesis
    by (auto simp: MAPPING_def split: if_splits)
qed

lemma handler_renamed: "k \<in> set FUNCTION_PROPS \<Longrightarrow> renamed k = Name k"
proof -
  assume k: "k \<in> set FUNCTION_PROPS"
  with Object_prototype_names [of k] have "k \<notin> fst ` set Object_prototype" by blast
  from renamed_plain [OF this] k FUNCTION_PROPS_plain show ?thesis
    by (auto simp: MAPPING_def split: if_splits)
qed

lemma handler_iff: "(storedKey k \<in> set FUNCTION_PROPS) = (k \<in> set FUNCTION_PROPS)"
  using renamed_handler [of k] handler_renamed [of k] by auto

text \<open>The loop over a list in two parts, and the keys a stretch of the loop leaves alone.\<close>

lemma filterConfig_loop_append:
  "filterConfig_loop r (xs @ ys) config passProps =
     (case filterConfig_loop r xs config passProps of
        (config', passProps') \<Rightarrow> filterConfig_loop r ys config' passProps')"
proof (induction xs arbitrary: config passProps)
  case Nil
  show ?case by simp
next
  case (Cons p xs)
  obtain rawKey v where p: "p = (rawKey, v)" by (cases p)
  consider (handler) "storedKey rawKey \<in> set FUNCTION_PROPS"
    | (option) "storedKey rawKey \<notin> set FUNCTION_PROPS" "storedKey rawKey \<in> set OPTIONS"
    | (pass) "storedKey rawKey \<notin> set FUNCTION_PROPS" "storedKey rawKey \<notin> set OPTIONS"
    by blast
  then show ?case
  proof cases
    case handler
    show ?thesis
      unfolding p append_Cons filterConfig_loop_handler [OF handler] by (rule Cons.IH)
  next
    case option
    show ?thesis
      unfolding p append_Cons filterConfig_loop_option [OF option] by (rule Cons.IH)
  next
    case pass
    show ?thesis
      unfolding p append_Cons filterConfig_loop_pass [OF pass] by (rule Cons.IH)
  qed
qed

lemma filterConfig_loop_keeps:
  assumes "\<forall>k' \<in> fst ` set ps. storedKey k' \<noteq> key"
  shows "fst (filterConfig_loop r ps config passProps) key = config key
       \<and> snd (filterConfig_loop r ps config passProps) key = passProps key"
  using assms
proof (induction ps arbitrary: config passProps)
  case Nil
  show ?case by simp
next
  case (Cons p ps)
  obtain rawKey v where p: "p = (rawKey, v)" by (cases p)
  from Cons.prems have ne: "storedKey rawKey \<noteq> key" by (simp add: p)
  from Cons.prems have rest: "\<forall>k' \<in> fst ` set ps. storedKey k' \<noteq> key" by simp
  note IH = Cons.IH [OF rest]
  consider (handler) "storedKey rawKey \<in> set FUNCTION_PROPS"
    | (option) "storedKey rawKey \<notin> set FUNCTION_PROPS" "storedKey rawKey \<in> set OPTIONS"
    | (pass) "storedKey rawKey \<notin> set FUNCTION_PROPS" "storedKey rawKey \<notin> set OPTIONS"
    by blast
  then show ?case
  proof cases
    case handler
    show ?thesis
      unfolding p filterConfig_loop_handler [OF handler] by (rule IH)
  next
    case option
    show ?thesis
      unfolding p filterConfig_loop_option [OF option] using ne by (simp add: IH)
  next
    case pass
    show ?thesis
      unfolding p filterConfig_loop_pass [OF pass] using ne by (simp add: IH)
  qed
qed

text \<open>The keys of the two objects the loop returns.\<close>

lemma filterConfig_loop_config_keys:
  "dom (fst (filterConfig_loop r ps config passProps)) =
     dom config \<union> {k \<in> storedKey ` fst ` set ps. k \<notin> set FUNCTION_PROPS \<and> k \<in> set OPTIONS}"
proof (induction ps arbitrary: config passProps)
  case Nil
  show ?case by simp
next
  case (Cons p ps)
  obtain rawKey v where p: "p = (rawKey, v)" by (cases p)
  consider (handler) "storedKey rawKey \<in> set FUNCTION_PROPS"
    | (option) "storedKey rawKey \<notin> set FUNCTION_PROPS" "storedKey rawKey \<in> set OPTIONS"
    | (pass) "storedKey rawKey \<notin> set FUNCTION_PROPS" "storedKey rawKey \<notin> set OPTIONS"
    by blast
  then show ?case
  proof cases
    case handler
    then show ?thesis
      unfolding p filterConfig_loop_handler [OF handler] Cons.IH by auto
  next
    case option
    then show ?thesis
      unfolding p filterConfig_loop_option [OF option] Cons.IH by auto
  next
    case pass
    then show ?thesis
      unfolding p filterConfig_loop_pass [OF pass] Cons.IH by auto
  qed
qed

lemma filterConfig_loop_pass_keys:
  "dom (snd (filterConfig_loop r ps config passProps)) =
     dom passProps \<union> {k \<in> storedKey ` fst ` set ps. k \<notin> set FUNCTION_PROPS \<and> k \<notin> set OPTIONS}"
proof (induction ps arbitrary: config passProps)
  case Nil
  show ?case by simp
next
  case (Cons p ps)
  obtain rawKey v where p: "p = (rawKey, v)" by (cases p)
  consider (handler) "storedKey rawKey \<in> set FUNCTION_PROPS"
    | (option) "storedKey rawKey \<notin> set FUNCTION_PROPS" "storedKey rawKey \<in> set OPTIONS"
    | (pass) "storedKey rawKey \<notin> set FUNCTION_PROPS" "storedKey rawKey \<notin> set OPTIONS"
    by blast
  then show ?case
  proof cases
    case handler
    then show ?thesis
      unfolding p filterConfig_loop_handler [OF handler] Cons.IH by auto
  next
    case option
    then show ?thesis
      unfolding p filterConfig_loop_option [OF option] Cons.IH by auto
  next
    case pass
    then show ?thesis
      unfolding p filterConfig_loop_pass [OF pass] Cons.IH by auto
  qed
qed

text \<open>The keys the event bridge keeps.\<close>

lemma getProp_distinct:
  "distinct (map fst ps) \<Longrightarrow> (k, v) \<in> set ps \<Longrightarrow> getProp ps k = v"
  by (simp add: getProp_def)

lemma handlerKeys_sub:
  "set (handlerKeys ps) \<subseteq> {k \<in> fst ` set ps. storedKey k \<in> set FUNCTION_PROPS}"
  by (auto simp: handlerKeys_def in_FUNCTION_PROPS)

lemma handlerKeys_all:
  assumes "distinct (map fst ps)"
    and "\<forall>(k, v) \<in> set ps. storedKey k \<in> set FUNCTION_PROPS \<longrightarrow> typeof v = ''function''"
  shows "set (handlerKeys ps) = {k \<in> fst ` set ps. storedKey k \<in> set FUNCTION_PROPS}"
proof
  show "set (handlerKeys ps) \<subseteq> {k \<in> fst ` set ps. storedKey k \<in> set FUNCTION_PROPS}"
    by (rule handlerKeys_sub)
  show "{k \<in> fst ` set ps. storedKey k \<in> set FUNCTION_PROPS} \<subseteq> set (handlerKeys ps)"
  proof
    fix k assume "k \<in> {k \<in> fst ` set ps. storedKey k \<in> set FUNCTION_PROPS}"
    then obtain v where kv: "(k, v) \<in> set ps" and h: "storedKey k \<in> set FUNCTION_PROPS"
      by auto
    from assms(2) kv h have "typeof v = ''function''" by blast
    moreover from assms(1) kv have "getProp ps k = v" by (rule getProp_distinct)
    ultimately show "k \<in> set (handlerKeys ps)"
      using kv h by (force simp: handlerKeys_def in_FUNCTION_PROPS)
  qed
qed

text \<open>Keys used in the examples.\<close>

lemma renamed_examples:
  "renamed ''onChange'' = Name ''onChange''" "renamed ''onCommit'' = Name ''onCommit''"
  "renamed ''className'' = Name ''class''" "renamed ''value'' = Name ''value''"
  "renamed ''readOnly'' = Name ''readOnly''"
  by (simp_all add: renamed_def MAPPING_def Object_prototype_def)

lemma plain_examples:
  "''onChange'' \<notin> fst ` set Object_prototype" "''onCommit'' \<notin> fst ` set Object_prototype"
  "''className'' \<notin> fst ` set Object_prototype" "''value'' \<notin> fst ` set Object_prototype"
  by (simp_all add: Object_prototype_def)

lemma table_examples:
  "''onChange'' \<in> set FUNCTION_PROPS" "''onCommit'' \<in> set FUNCTION_PROPS"
  "''onCommit'' \<in> set OPTIONS" "''value'' \<notin> set FUNCTION_PROPS" "''value'' \<notin> set OPTIONS"
  "''readOnly'' \<in> set OPTIONS" "''readOnly'' \<notin> set FUNCTION_PROPS"
  by (simp_all add: FUNCTION_PROPS_def FUNCTION_MAPPING_def OPTIONS_def)

text \<open>
  The props \<open>{constructor: 1}\<close>: the key read from \<open>MAPPING\<close> is the inherited
  function, which is in neither table, and the value goes into the passthrough object
  under the text of that function. The bridge does not keep such a key.
\<close>

lemma inherited_example:
  "renamed ''constructor'' = Member ''function Object() { [native code] }''"
  "filterConfig r [(''constructor'', JNum 1)]
     = (Map.empty, [''function Object() { [native code] }'' \<mapsto> JNum 1])"
  "handlerKeys [(''constructor'', JFunc 1)] = []"
proof -
  show m: "renamed ''constructor'' = Member ''function Object() { [native code] }''"
    by (simp add: renamed_def MAPPING_def Object_prototype_def)
  have f: "''function Object() { [native code] }'' \<notin> set FUNCTION_PROPS"
    by (simp add: FUNCTION_PROPS_def FUNCTION_MAPPING_def)
  have o: "''function Object() { [native code] }'' \<notin> set OPTIONS"
    by (simp add: OPTIONS_def)
  show "filterConfig r [(''constructor'', JNum 1)]
     = (Map.empty, [''function Object() { [native code] }'' \<mapsto> JNum 1])"
    by (simp add: filterConfig_def filterConfig_loop_pass m f o)
  show "handlerKeys [(''constructor'', JFunc 1)] = []"
    by (simp add: handlerKeys_def in_FUNCTION_PROPS m f)
qed

text \<open>
  Claim C1, as stated: the keys of the configuration object, of the passthrough object and
  the keys the event bridge keeps are, together, the keys of the props after renaming.
  It fails on \<open>{onChange: undefined}\<close>: \<open>onChange\<close> is not renamed, the classifier leaves
  it out of both objects, and the bridge, which keeps functions only, leaves it out too.
\<close>

theorem filterConfig_partition_counterexample:
  "renamed ''onChange'' = Name ''onChange''
   \<and> dom (fst (filterConfig renderNothing [(''onChange'', JUndefined)]))
      \<union> dom (snd (filterConfig renderNothing [(''onChange'', JUndefined)]))
      \<union> set (handlerKeys [(''onChange'', JUndefined)]) = {}
   \<and> fst ` set [(''onChange'', JUndefined)] = {''onChange''}"
  by (simp add: filterConfig_def filterConfig_loop_handler handlerKeys_def getProp_def
      renamed_examples table_examples in_FUNCTION_PROPS)

text \<open>
  Claim C1, amended. For all props the keys of the configuration object, the keys of the
  passthrough object and the keys the event bridge keeps are pairwise disjoint, and no key
  the bridge keeps is renamed. When no key of the props is the name of a member of
  \<open>Object.prototype\<close>, the three sets hold only keys of the props after the renaming of
  \<open>MAPPING\<close>; when moreover every property whose key is a key of \<open>FUNCTION_MAPPING\<close>
  holds a function, they hold all of them.
\<close>

theorem filterConfig_partition:
  "dom (fst (filterConfig r ps)) \<inter> dom (snd (filterConfig r ps)) = {}
   \<and> dom (fst (filterConfig r ps)) \<inter> set (handlerKeys ps) = {}
   \<and> dom (snd (filterConfig r ps)) \<inter> set (handlerKeys ps) = {}
   \<and> (\<forall>k \<in> set (handlerKeys ps). renamed k = Name k)
   \<and> ((\<forall>k \<in> fst ` set ps. k \<notin> fst ` set Object_prototype) \<longrightarrow>
        dom (fst (filterConfig r ps)) \<union> dom (snd (filterConfig r ps)) \<union> set (handlerKeys ps)
          \<subseteq> (\<lambda>k. case map_of MAPPING k of Some c \<Rightarrow> c | None \<Rightarrow> k) ` fst ` set ps)
   \<and> ((\<forall>k \<in> fst ` set ps. k \<notin> fst ` set Object_prototype)
        \<and> distinct (map fst ps)
        \<and> (\<forall>(k, v) \<in> set ps. k \<in> set FUNCTION_PROPS \<longrightarrow> typeof v = ''function'')
      \<longrightarrow> dom (fst (filterConfig r ps)) \<union> dom (snd (filterConfig r ps)) \<union> set (handlerKeys ps)
            = (\<lambda>k. case map_of MAPPING k of Some c \<Rightarrow> c | None \<Rightarrow> k) ` fst ` set ps)"
proof -
  let ?K = "storedKey ` fst ` set ps"
  let ?R = "\<lambda>k. case map_of MAPPING k of Some c \<Rightarrow> c | None \<Rightarrow> k"
  let ?U = "dom (fst (filterConfig r ps)) \<union> dom (snd (filterConfig r ps)) \<union> set (handlerKeys ps)"
  have c: "dom (fst (filterConfig r ps)) =
      {k \<in> ?K. k \<notin> set FUNCTION_PROPS \<and> k \<in> set OPTIONS}"
    by (simp add: filterConfig_def filterConfig_loop_config_keys)
  have p: "dom (snd (filterConfig r ps)) =
      {k \<in> ?K. k \<notin> set FUNCTION_PROPS \<and> k \<notin> set OPTIONS}"
    by (simp add: filterConfig_def filterConfig_loop_pass_keys)
  have kept: "renamed k = Name k" if "k \<in> set (handlerKeys ps)" for k
    using that handlerKeys_sub [of ps] renamed_handler [of k] by auto
  have h: "set (handlerKeys ps) \<subseteq> {k \<in> ?K. k \<in> set FUNCTION_PROPS}"
  proof
    fix k assume k: "k \<in> set (handlerKeys ps)"
    with handlerKeys_sub [of ps]
    have "k \<in> fst ` set ps" and "storedKey k \<in> set FUNCTION_PROPS" by auto
    moreover from kept [OF k] have "storedKey k = k" by simp
    ultimately show "k \<in> {k \<in> ?K. k \<in> set FUNCTION_PROPS}" by force
  qed
  have d1: "dom (fst (filterConfig r ps)) \<inter> dom (snd (filterConfig r ps)) = {}"
    unfolding c p by auto
  have d2: "dom (fst (filterConfig r ps)) \<inter> set (handlerKeys ps) = {}"
    using h unfolding c by auto
  have d3: "dom (snd (filterConfig r ps)) \<inter> set (handlerKeys ps) = {}"
    using h unfolding p by auto
  have plain: "?K = ?R ` fst ` set ps"
    if "\<forall>k \<in> fst ` set ps. k \<notin> fst ` set Object_prototype"
  proof -
    have "storedKey k = ?R k" if "k \<in> fst ` set ps" for k
      using renamed_plain [of k] that \<open>\<forall>k \<in> fst ` set ps. k \<notin> fst ` set Object_prototype\<close>
      by simp
    then have "storedKey ` (fst ` set ps) = ?R ` (fst ` set ps)" by (rule image_cong [OF refl])
    then show ?thesis .
  qed
  have sub: "?U \<subseteq> ?K" using h unfolding c p by auto
  have all: "?U = ?K"
    if d: "distinct (map fst ps)"
      and f: "\<forall>(k, v) \<in> set ps. k \<in> set FUNCTION_PROPS \<longrightarrow> typeof v = ''function''"
  proof -
    from f have f': "\<forall>(k, v) \<in> set ps. storedKey k \<in> set FUNCTION_PROPS \<longrightarrow> typeof v = ''function''"
      by (simp add: handler_iff)
    have "{k \<in> ?K. k \<in> set FUNCTION_PROPS} \<subseteq> set (handlerKeys ps)"
    proof
      fix x assume "x \<in> {k \<in> ?K. k \<in> set FUNCTION_PROPS}"
      then obtain k where k: "k \<in> fst ` set ps" and x: "x = storedKey k"
        and xf: "storedKey k \<in> set FUNCTION_PROPS" by auto
      from renamed_handler [OF xf] x have "x = k" by simp
      with k xf show "x \<in> set (handlerKeys ps)"
        unfolding handlerKeys_all [OF d f'] by simp
    qed
    with h have "set (handlerKeys ps) = {k \<in> ?K. k \<in> set FUNCTION_PROPS}" by blast
    with c p show ?thesis by auto
  qed
  have kept': "\<forall>k \<in> set (handlerKeys ps). renamed k = Name k" using kept by blast
  have sub': "(\<forall>k \<in> fst ` set ps. k \<notin> fst ` set Object_prototype) \<longrightarrow> ?U \<subseteq> ?R ` fst ` set ps"
  proof (rule impI)
    assume n: "\<forall>k \<in> fst ` set ps. k \<notin> fst ` set Object_prototype"
    from sub show "?U \<subseteq> ?R ` fst ` set ps" by (simp only: plain [OF n])
  qed
  have all': "(\<forall>k \<in> fst ` set ps. k \<notin> fst ` set Object_prototype)
        \<and> distinct (map fst ps)
        \<and> (\<forall>(k, v) \<in> set ps. k \<in> set FUNCTION_PROPS \<longrightarrow> typeof v = ''function'')
      \<longrightarrow> ?U = ?R ` fst ` set ps"
  proof (rule impI, elim conjE)
    assume n: "\<forall>k \<in> fst ` set ps. k \<notin> fst ` set Object_prototype"
      and d: "distinct (map fst ps)"
      and f: "\<forall>(k, v) \<in> set ps. k \<in> set FUNCTION_PROPS \<longrightarrow> typeof v = ''function''"
    from all [OF d f] show "?U = ?R ` fst ` set ps" by (simp only: plain [OF n])
  qed
  show ?thesis
    by (intro conjI) (rule d1, rule d2, rule d3, rule kept', rule sub', rule all')
qed

text \<open>The props \<open>{value: "x^2", onCommit: fn, className: "foo"}\<close>.\<close>

lemma scenario:
  "filterConfig r [(''value'', JStr ''x^2''), (''onCommit'', JFunc 1), (''className'', JStr ''foo'')]
     = (Map.empty, [''value'' \<mapsto> JStr ''x^2'', ''class'' \<mapsto> JStr ''foo''])"
  "handlerKeys [(''value'', JStr ''x^2''), (''onCommit'', JFunc 1), (''className'', JStr ''foo'')]
     = [''onCommit'']"
  by (simp_all add: filterConfig_def filterConfig_loop_turn handlerKeys_def getProp_def
      renamed_examples table_examples OPTIONS_plain FUNCTION_PROPS_plain in_FUNCTION_PROPS)

theorem filterConfig_partition_witness:
  "''value'' \<notin> fst ` set Object_prototype
   \<and> ''onCommit'' \<notin> fst ` set Object_prototype
   \<and> ''className'' \<notin> fst ` set Object_prototype
   \<and> distinct (map fst [(''value'', JStr ''x^2''), (''onCommit'', JFunc 1), (''className'', JStr ''foo'')])
   \<and> dom (fst (filterConfig renderNothing
        [(''value'', JStr ''x^2''), (''onCommit'', JFunc 1), (''className'', JStr ''foo'')]))
     \<union> dom (snd (filterConfig renderNothing
        [(''value'', JStr ''x^2''), (''onCommit'', JFunc 1), (''className'', JStr ''foo'')]))
     \<union> set (handlerKeys
        [(''value'', JStr ''x^2''), (''onCommit'', JFunc 1), (''className'', JStr ''foo'')])
     = {''value'', ''onCommit'', ''class''}"
proof -
  let ?ps = "[(''value'', JStr ''x^2''), (''onCommit'', JFunc 1), (''className'', JStr ''foo'')]"
  have n: "\<forall>k \<in> fst ` set ?ps. k \<notin> fst ` set Object_prototype"
    using plain_examples by simp
  have d: "distinct (map fst ?ps)" by simp
  have f: "\<forall>(k, v) \<in> set ?ps. k \<in> set FUNCTION_PROPS \<longrightarrow> typeof v = ''function''"
    by (simp add: table_examples FUNCTION_PROPS_plain)
  from filterConfig_partition [of renderNothing ?ps] n d f
  have "dom (fst (filterConfig renderNothing ?ps)) \<union> dom (snd (filterConfig renderNothing ?ps))
          \<union> set (handlerKeys ?ps)
        = (\<lambda>k. case map_of MAPPING k of Some c \<Rightarrow> c | None \<Rightarrow> k) ` fst ` set ?ps"
    by blast
  also have "\<dots> = {''value'', ''onCommit'', ''class''}"
    by (simp add: MAPPING_def)
  finally show ?thesis using plain_examples d by blast
qed

text \<open>The loop up to a property, then from it on.\<close>

lemma filterConfig_split:
  "filterConfig r (before @ (k, v) # after) =
     (case filterConfig_loop r before Map.empty Map.empty of
        (config, passProps) \<Rightarrow> filterConfig_loop r ((k, v) # after) config passProps)"
  by (simp add: filterConfig_def filterConfig_loop_append)

text \<open>
  Claim C6, as stated: a property whose renamed key is neither a key of
  \<open>FUNCTION_MAPPING\<close> nor one of \<open>OPTIONS\<close> is put into the passthrough object under
  its original key. It fails on \<open>{className: "foo"}\<close>: the passthrough object has no
  \<open>className\<close>, it has \<open>class\<close>.
\<close>

theorem filterConfig_passthrough_counterexample:
  "renamed ''className'' = Name ''class''
   \<and> ''class'' \<notin> set FUNCTION_PROPS
   \<and> ''class'' \<notin> set OPTIONS
   \<and> snd (filterConfig renderNothing [(''className'', JStr ''foo'')]) ''className'' = None
   \<and> snd (filterConfig renderNothing [(''className'', JStr ''foo'')]) ''class''
       = Some (JStr ''foo'')"
  by (simp add: filterConfig_def filterConfig_loop_pass renamed_examples
      OPTIONS_plain FUNCTION_PROPS_plain)

text \<open>
  Claim C6, amended. Take a property whose key is not the name of a member of
  \<open>Object.prototype\<close>, and the key \<open>MAPPING\<close> renames it to (the key itself when
  \<open>MAPPING\<close> has no entry for it). When that key is neither a key of
  \<open>FUNCTION_MAPPING\<close> nor one of \<open>OPTIONS\<close>, the property is put into the passthrough
  object under it, with its value: that is what the object holds at the end when no later
  property is written under the same key. The configuration object does not get the key.
\<close>

theorem filterConfig_passthrough:
  assumes "k \<notin> fst ` set Object_prototype"
    and "key = (case map_of MAPPING k of Some c \<Rightarrow> c | None \<Rightarrow> k)"
    and "key \<notin> set FUNCTION_PROPS" and "key \<notin> set OPTIONS"
    and "\<forall>k' \<in> fst ` set after. storedKey k' \<noteq> key"
  shows "renamed k = Name key
       \<and> snd (filterConfig r (before @ (k, v) # after)) key = Some v
       \<and> fst (filterConfig r (before @ (k, v) # after)) key = None"
proof -
  have rk: "renamed k = Name key"
    using renamed_plain [OF assms(1)] assms(2) by simp
  then have sk: "storedKey k = key" by simp
  have branch: "storedKey k \<notin> set FUNCTION_PROPS" "storedKey k \<notin> set OPTIONS"
    using assms(3,4) sk by simp_all
  obtain config passProps
    where before: "filterConfig_loop r before Map.empty Map.empty = (config, passProps)"
    by (cases "filterConfig_loop r before Map.empty Map.empty")
  have whole: "filterConfig r (before @ (k, v) # after) =
      filterConfig_loop r after config (passProps(key \<mapsto> v))"
    by (simp add: filterConfig_split before filterConfig_loop_pass [OF branch] sk)
  from filterConfig_loop_keeps [OF assms(5)]
  have "snd (filterConfig_loop r after config (passProps(key \<mapsto> v))) key
          = (passProps(key \<mapsto> v)) key"
    by blast
  then have pass: "snd (filterConfig r (before @ (k, v) # after)) key = Some v"
    by (simp add: whole)
  have "key \<notin> dom (fst (filterConfig r (before @ (k, v) # after)))"
    using filterConfig_loop_config_dom [of r "before @ (k, v) # after" Map.empty Map.empty]
      assms(4)
    by (auto simp: filterConfig_def)
  then have "fst (filterConfig r (before @ (k, v) # after)) key = None"
    by (simp add: domIff)
  with rk pass show ?thesis by simp
qed

theorem filterConfig_passthrough_witness:
  "''className'' \<notin> fst ` set Object_prototype
   \<and> ''class'' = (case map_of MAPPING ''className'' of Some c \<Rightarrow> c | None \<Rightarrow> ''className'')
   \<and> ''class'' \<notin> set FUNCTION_PROPS \<and> ''class'' \<notin> set OPTIONS
   \<and> snd (filterConfig renderNothing
        ([(''class'', JStr ''old'')] @ (''className'', JStr ''foo'') # [(''value'', JStr ''x^2'')]))
        ''class'' = Some (JStr ''foo'')"
proof -
  have n: "''className'' \<notin> fst ` set Object_prototype" by (rule plain_examples)
  have m: "''class'' = (case map_of MAPPING ''className'' of Some c \<Rightarrow> c | None \<Rightarrow> ''className'')"
    by (simp add: MAPPING_def)
  have a: "''class'' \<notin> set FUNCTION_PROPS" and b: "''class'' \<notin> set OPTIONS"
    by (simp_all add: OPTIONS_plain FUNCTION_PROPS_plain)
  have c: "\<forall>k' \<in> fst ` set [(''value'', JStr ''x^2'')]. storedKey k' \<noteq> ''class''"
    by (simp add: renamed_examples)
  from filterConfig_passthrough [OF n m a b c, of renderNothing "[(''class'', JStr ''old'')]"
      "JStr ''foo''"] n m a b
  show ?thesis by blast
qed

text \<open>
  Claim C10, as stated: every key of \<open>OPTIONS\<close> whose value is the empty array gets the
  rendered string in the configuration object. It fails on \<open>{onCommit: []}\<close>:
  \<open>onCommit\<close> is also a key of \<open>FUNCTION_MAPPING\<close>, and the configuration object does
  not get it.
\<close>

theorem filterConfig_empty_array_counterexample:
  "''onCommit'' \<in> set OPTIONS
   \<and> fst (filterConfig renderNothing [(''onCommit'', JArray [])]) ''onCommit'' = None
   \<and> fst (filterConfig renderNothing [(''onCommit'', JArray [])]) ''onCommit''
       \<noteq> Some (JStr (renderNothing (JArray [])))"
  by (simp add: filterConfig_def filterConfig_loop_handler renamed_examples table_examples)

text \<open>
  Claim C10, amended. For every key of \<open>OPTIONS\<close> that is not a key of
  \<open>FUNCTION_MAPPING\<close> and whose value in the props is the empty array, the test
  \<open>every(React.isValidElement)\<close> holds of the array, and the configuration object holds
  under that key the string \<open>renderToString\<close> gives for the array, not the array.
\<close>

theorem filterConfig_empty_array:
  assumes "k \<in> set OPTIONS" and "k \<notin> set FUNCTION_PROPS"
    and "distinct (map fst ps)" and "(k, JArray []) \<in> set ps"
  shows "every isValidElement (JArray [])
       \<and> fst (filterConfig r ps) k = Some (JStr (r (JArray [])))
       \<and> fst (filterConfig r ps) k \<noteq> Some (JArray [])"
proof -
  from assms(4) obtain before after where ps: "ps = before @ (k, JArray []) # after"
    by (auto simp: in_set_conv_decomp)
  have rk: "storedKey k = k" using option_renamed [OF assms(1)] by simp
  have later: "\<forall>k' \<in> fst ` set after. storedKey k' \<noteq> k"
  proof
    fix k' assume k': "k' \<in> fst ` set after"
    show "storedKey k' \<noteq> k"
    proof
      assume eq: "storedKey k' = k"
      with assms(1) have "storedKey k' \<in> set OPTIONS" by simp
      then have "storedKey k' = k'" using renamed_option [of k'] by simp
      with eq have "k \<in> fst ` set after" using k' by simp
      with assms(3) show False unfolding ps by auto
    qed
  qed
  obtain config passProps
    where before: "filterConfig_loop r before Map.empty Map.empty = (config, passProps)"
    by (cases "filterConfig_loop r before Map.empty Map.empty")
  have opt: "storedKey k \<notin> set FUNCTION_PROPS" "storedKey k \<in> set OPTIONS"
    using assms(1,2) rk by simp_all
  have whole: "filterConfig r ps =
      filterConfig_loop r after (config(k \<mapsto> JStr (r (JArray [])))) passProps"
    unfolding ps by (simp add: filterConfig_split before filterConfig_loop_option [OF opt] rk)
  from filterConfig_loop_keeps [OF later]
  have "fst (filterConfig_loop r after (config(k \<mapsto> JStr (r (JArray [])))) passProps) k
          = (config(k \<mapsto> JStr (r (JArray [])))) k"
    by blast
  then have "fst (filterConfig r ps) k = Some (JStr (r (JArray [])))"
    by (simp add: whole)
  then show ?thesis by simp
qed

theorem filterConfig_empty_array_witness:
  "''readOnly'' \<in> set OPTIONS \<and> ''readOnly'' \<notin> set FUNCTION_PROPS
   \<and> fst (filterConfig renderNothing [(''value'', JStr ''x''), (''readOnly'', JArray [])])
        ''readOnly'' = Some (JStr [])"
proof -
  have a: "''readOnly'' \<in> set OPTIONS" and b: "''readOnly'' \<notin> set FUNCTION_PROPS"
    by (simp_all add: table_examples)
  have d: "distinct (map fst [(''value'', JStr ''x''), (''readOnly'', JArray [])])" by simp
  have m: "(''readOnly'', JArray []) \<in> set [(''value'', JStr ''x''), (''readOnly'', JArray [])]"
    by simp
  from filterConfig_empty_array [OF a b d m, of renderNothing] a b
  show ?thesis by (simp add: renderNothing_def)
qed

end
